theory Spec2Isabelle
  imports Complex_Main "HOL-Library.Sublist"
begin

section \<open>The batch execution engine of \<open>batch-processor.service.ts\<close>\<close>

text \<open>
  A shallow embedding of \<open>BatchProcessorService\<close>: the chunking loop, the retry
  policy, the chunk executor \<open>processChunkWithRetry\<close>, the completion handler that
  folds a \<open>ChunkResult\<close> into the shared counters, the scheduling loop and the
  result assembled by \<open>processBatch\<close>.  Record fields carry a prefix naming their
  record (\<open>c_\<close> for \<open>ChunkResult\<close>, \<open>e_\<close> for \<open>BatchError\<close>, \<open>p_\<close> for
  \<open>BatchProgress\<close>, \<open>r_\<close> for \<open>BatchResult\<close>, \<open>o_\<close> for \<open>BatchOptions\<close>), so
  that the local variables of the source keep their names.
\<close>

subsection \<open>Chunker\<close>

text \<open>
  \<open>Array.prototype.slice\<close> on integer arguments: a negative index counts from the
  end, and both indices are clamped to the array.
\<close>

definition array_slice :: "'a list \<Rightarrow> int \<Rightarrow> int \<Rightarrow> 'a list" where
  "array_slice xs start fin =
     (let len = int (length xs);
          k = (if start < 0 then max (len + start) 0 else min start len);
          final = (if fin < 0 then max (len + fin) 0 else min fin len)
      in take (nat (final - k)) (drop (nat k) xs))"

text \<open>
  The loop \<open>for (let i = 0; i < items.length; i += chunkSize)\<close>.  Nothing bounds it
  when \<open>chunkSize\<close> is not positive, so it is a partial function: \<open>None\<close> is the
  loop that never ends.
\<close>

partial_function (option) chunk_loop ::
  "'a list \<Rightarrow> int \<Rightarrow> int \<Rightarrow> 'a list list \<Rightarrow> 'a list list option" where
  "chunk_loop items chunkSize i chunks =
     (if i < int (length items)
      then chunk_loop items chunkSize (i + chunkSize)
             (chunks @ [array_slice items i (i + chunkSize)])
      else Some chunks)"

declare chunk_loop.simps [code]

definition split_chunks :: "'a list \<Rightarrow> int \<Rightarrow> 'a list list option" where
  "split_chunks items chunkSize = chunk_loop items chunkSize 0 []"

subsection \<open>Data model\<close>

text \<open>
  Counts and sizes are JavaScript numbers in the source; they are modelled as
  unbounded integers (\<open>int\<close>, or \<open>nat\<close> where the source can only produce a
  length or a counter that starts at zero and is incremented); the integers that
  occur are far below \<open>2^53\<close>, where the arithmetic of doubles on them is exact.
  The quotients in the progress snapshot are not integers: they are computed with the
  rounding of doubles (see \<open>to_double\<close> below).
\<close>

record 'a BatchError =
  e_index :: nat
  e_item :: 'a
  e_error :: "string option"
  e_retryable :: bool

record 'a ChunkResult =
  c_chunkIndex :: nat
  c_items :: "'a list"
  c_succeeded :: int
  c_failed :: int
  c_errors :: "'a BatchError list"
  c_duration :: int

record BatchProgress =
  p_total :: nat
  p_processed :: int
  p_succeeded :: int
  p_failed :: int
  p_percentage :: int
  p_currentChunk :: nat
  p_totalChunks :: nat
  p_estimatedTimeRemaining :: rat

record ('a, 'r) BatchResult =
  r_success :: bool
  r_total :: nat
  r_succeeded :: int
  r_failed :: int
  r_errors :: "'a BatchError list"
  r_duration :: int
  r_results :: "'r list"

text \<open>
  A callback is arbitrary caller code: all the engine can observe is whether it
  returns (\<open>None\<close>) or throws (\<open>Some\<close> of the exception's text).  The
  \<open>abortSignal\<close> option is read from the environment at each pass of the scheduling
  loop (see \<open>tick\<close> below).
\<close>

record 'a BatchOptions =
  o_items :: "'a list"
  o_chunkSize :: "int option"
  o_concurrency :: "int option"
  o_onProgress :: "(BatchProgress \<Rightarrow> string option) option"
  o_onChunkComplete :: "('a ChunkResult \<Rightarrow> string option) option"
  o_retries :: "int option"
  o_retryDelay :: "int option"

definition DEFAULT_CHUNK_SIZE :: int where "DEFAULT_CHUNK_SIZE = 500"
definition DEFAULT_CONCURRENCY :: int where "DEFAULT_CONCURRENCY = 3"
definition DEFAULT_RETRIES :: int where "DEFAULT_RETRIES = 2"
definition DEFAULT_RETRY_DELAY :: int where "DEFAULT_RETRY_DELAY = 1000"

definition or_default :: "'v option \<Rightarrow> 'v \<Rightarrow> 'v" where
  "or_default v d = (case v of None \<Rightarrow> d | Some x \<Rightarrow> x)"

subsection \<open>Retry policy: \<open>isRetryableError\<close>\<close>

text \<open>
  A thrown value is an object with an optional \<open>message\<close>; the other field stands
  for everything else an \<open>Error\<close> carries.  Strings are ASCII: \<open>toLowerCase\<close>
  maps \<open>A\<close>..\<open>Z\<close> to \<open>a\<close>..\<open>z\<close>, and \<open>string_includes\<close> is contiguous
  containment.
\<close>

record js_error =
  error_name :: string
  error_message :: "string option"

definition lower_char :: "char \<Rightarrow> char" where
  "lower_char c =
     (case map_of (zip ''ABCDEFGHIJKLMNOPQRSTUVWXYZ'' ''abcdefghijklmnopqrstuvwxyz'') c of
        None \<Rightarrow> c
      | Some l \<Rightarrow> l)"

definition toLowerCase :: "string \<Rightarrow> string" where
  "toLowerCase s = map lower_char s"

fun startsWith :: "string \<Rightarrow> string \<Rightarrow> bool" where
  "startsWith s [] = True"
| "startsWith [] (k # ks) = False"
| "startsWith (c # s) (k # ks) = (c = k \<and> startsWith s ks)"

fun string_includes :: "string \<Rightarrow> string \<Rightarrow> bool" where
  "string_includes [] k = (k = [])"
| "string_includes (c # s) k = (startsWith (c # s) k \<or> string_includes s k)"

definition isRetryableError :: "js_error \<Rightarrow> bool" where
  "isRetryableError e =
     (let message = (case error_message e of None \<Rightarrow> [] | Some m \<Rightarrow> toLowerCase m) in
        string_includes message ''deadlock'' \<or>
        string_includes message ''timeout'' \<or>
        string_includes message ''connection'' \<or>
        string_includes message ''too many connections'' \<or>
        string_includes message ''serialization failure'')"

subsection \<open>Chunk executor: \<open>processChunkWithRetry\<close>\<close>

text \<open>
  The injected operation may be stateful, so its answer may differ from one call to
  the next: the model hands it the number of earlier calls for the same chunk.  Each
  call answers with the time it took and either the list it returned or the value it
  threw.  Time is discrete (milliseconds); \<open>setTimeout\<close> is taken to wait exactly
  its argument, and not at all for a non-positive one.
\<close>

datatype 'r outcome = Returns "'r list" | Throws js_error

type_synonym ('a, 'r) processor = "'a list \<Rightarrow> nat \<Rightarrow> nat \<Rightarrow> int \<times> 'r outcome"

text \<open>
  The \<open>for\<close> loop of \<open>processChunkWithRetry\<close>.  \<open>clock\<close> is the time since
  \<open>startTime\<close>, \<open>waits\<close> the arguments passed to \<open>setTimeout\<close> so far.  The local
  array \<open>errors\<close> is only written immediately before the \<open>break\<close>, so it is empty
  wherever else it is read.
\<close>

function attempt_loop ::
  "'a list \<Rightarrow> nat \<Rightarrow> ('a, 'r) processor \<Rightarrow> int \<Rightarrow> int \<Rightarrow> nat \<Rightarrow> int \<Rightarrow> int list
     \<Rightarrow> 'a ChunkResult \<times> int list" where
  "attempt_loop chunk chunkIndex processor retries retryDelay attempt clock waits =
     (if int attempt \<le> retries then
        (case processor chunk chunkIndex attempt of
           (took, Returns results) \<Rightarrow>
             (\<lparr>c_chunkIndex = chunkIndex, c_items = chunk,
               c_succeeded = int (length results),
               c_failed = int (length chunk) - int (length results),
               c_errors = [], c_duration = clock + took\<rparr>, waits)
         | (took, Throws lastError) \<Rightarrow>
             (let isRetryable = isRetryableError lastError in
              if \<not> isRetryable \<or> int attempt = retries then
                (\<lparr>c_chunkIndex = chunkIndex, c_items = chunk,
                  c_succeeded = 0, c_failed = int (length chunk),
                  c_errors = map (\<lambda>i. \<lparr>e_index = chunkIndex * length chunk + i,
                                         e_item = chunk ! i,
                                         e_error = error_message lastError,
                                         e_retryable = isRetryable\<rparr>) [0..<length chunk],
                  c_duration = clock + took\<rparr>, waits)
              else
                attempt_loop chunk chunkIndex processor retries retryDelay (Suc attempt)
                  (clock + took + max 0 (retryDelay * (int attempt + 1)))
                  (waits @ [retryDelay * (int attempt + 1)])))
      else
        (\<lparr>c_chunkIndex = chunkIndex, c_items = chunk,
          c_succeeded = 0, c_failed = int (length chunk),
          c_errors = [], c_duration = clock\<rparr>, waits))"
  by pat_completeness auto
termination
  by (relation "measure (\<lambda>(chunk, chunkIndex, processor, retries, retryDelay, attempt, clock, waits).
                  nat (retries + 1 - int attempt))") auto

declare attempt_loop.simps [simp del]

definition processChunkWithRetry ::
  "'a list \<Rightarrow> nat \<Rightarrow> ('a, 'r) processor \<Rightarrow> int \<Rightarrow> int \<Rightarrow> 'a ChunkResult \<times> int list" where
  "processChunkWithRetry chunk chunkIndex processor retries retryDelay =
     attempt_loop chunk chunkIndex processor retries retryDelay 0 0 []"

subsection \<open>Aggregation: the completion handler of a chunk\<close>

text \<open>
  The variables that the completion handlers share, together with the two work lists
  of the scheduling loop.  An entry of \<open>activePromises\<close> is the promise returned by
  \<open>processChunkWithRetry(...).then(...)\<close> for one chunk: pending until the chunk's
  handler has run, then fulfilled, or rejected when the handler threw.
  \<open>progressLog\<close> is not in the source: it records, in order, the snapshots that
  were handed to \<open>onProgress\<close>.
\<close>

datatype pstate = Pending | Fulfilled | Rejected string

record ('a, 'r) batch_state =
  allResults :: "'r list"
  allErrors :: "'a BatchError list"
  succeeded :: int
  failed :: int
  processedChunks :: nat
  chunkTimes :: "int list"
  processingQueue :: "(nat \<times> 'a list) list"
  activePromises :: "(nat \<times> 'a list \<times> pstate) list"
  progressLog :: "BatchProgress list"

text \<open>
  The arithmetic of the snapshot.  A double is the rational it denotes; the result of
  a division or multiplication is the exact result rounded to 53 significant bits,
  to nearest, ties to even (IEEE 754 binary64; overflow and subnormal numbers do not
  occur at these magnitudes).  \<open>Math.round\<close> rounds a double to the nearest
  integer, a tie upwards, and is exact.
\<close>

function bit_length :: "int \<Rightarrow> int" where
  "bit_length n = (if n \<le> 0 then 0 else 1 + bit_length (n div 2))"
  by pat_completeness auto
termination
  by (relation "measure nat") auto

declare bit_length.simps [simp del]

definition pow2 :: "int \<Rightarrow> rat" where
  "pow2 k = (if 0 \<le> k then 2 ^ nat k else 1 / 2 ^ nat (- k))"

definition binary_exponent :: "rat \<Rightarrow> int" where
  "binary_exponent x =
     (let (p, q) = quotient_of x;
          e = bit_length p - bit_length q
      in if pow2 e \<le> x then e else e - 1)"

definition round_half_even :: "rat \<Rightarrow> int" where
  "round_half_even y =
     (let f = \<lfloor>y\<rfloor>; d = y - of_int f
      in if d < 1 / 2 then f
         else if 1 / 2 < d then f + 1
         else if even f then f else f + 1)"

definition to_double :: "rat \<Rightarrow> rat" where
  "to_double x =
     (if x = 0 then 0
      else
        (let ulp = pow2 (binary_exponent \<bar>x\<bar> - 52)
         in sgn x * of_int (round_half_even (\<bar>x\<bar> / ulp)) * ulp))"

definition Math_round :: "rat \<Rightarrow> int" where
  "Math_round x = \<lfloor>x + 1 / 2\<rfloor>"

definition notify_complete :: "'a BatchOptions \<Rightarrow> 'a ChunkResult \<Rightarrow> pstate" where
  "notify_complete options result =
     (case o_onChunkComplete options of
        None \<Rightarrow> Fulfilled
      | Some callback \<Rightarrow> (case callback result of None \<Rightarrow> Fulfilled | Some exn \<Rightarrow> Rejected exn))"

definition chunk_done ::
  "'a BatchOptions \<Rightarrow> nat \<Rightarrow> 'a ChunkResult \<Rightarrow> ('a, 'r) batch_state
     \<Rightarrow> ('a, 'r) batch_state \<times> pstate" where
  "chunk_done options totalChunks result st =
     (let st1 = st\<lparr>processedChunks := processedChunks st + 1,
                    succeeded := succeeded st + c_succeeded result,
                    failed := failed st + c_failed result,
                    allErrors := allErrors st @ c_errors result,
                    chunkTimes := chunkTimes st @ [c_duration result]\<rparr>;
          avgChunkTime =
            to_double (of_int (sum_list (chunkTimes st1)) / of_nat (length (chunkTimes st1)));
          remainingChunks = int totalChunks - int (processedChunks st1);
          snapshot = \<lparr>p_total = length (o_items options),
                      p_processed = int (processedChunks st1)
                                    * or_default (o_chunkSize options) DEFAULT_CHUNK_SIZE,
                      p_succeeded = succeeded st1,
                      p_failed = failed st1,
                      p_percentage = Math_round
                        (to_double
                           (to_double (of_nat (processedChunks st1) / of_nat totalChunks)
                              * 100)),
                      p_currentChunk = processedChunks st1,
                      p_totalChunks = totalChunks,
                      p_estimatedTimeRemaining =
                        to_double (of_int remainingChunks * avgChunkTime)\<rparr>
      in case o_onProgress options of
           None \<Rightarrow> (st1, notify_complete options result)
         | Some callback \<Rightarrow>
             (let st2 = st1\<lparr>progressLog := progressLog st1 @ [snapshot]\<rparr> in
              case callback snapshot of
                Some exn \<Rightarrow> (st2, Rejected exn)
              | None \<Rightarrow> (st2, notify_complete options result)))"

subsection \<open>The status probe and the promise job queue\<close>

text \<open>
  The loop that removes completed promises asks for the state of a promise with
  \<open>await Promise.race([p.then(() => 'resolved'), Promise.resolve('pending')])\<close>.
  What this expression answers is decided by the order of promise reaction jobs.
  The part of it that the probe uses, as
  ECMAScript defines it: a promise is pending or settled with a value; \<open>then\<close> on a
  pending promise stores a reaction, on a settled promise it appends a job to the job
  queue at once (\<open>PerformPromiseThen\<close>); settling a promise appends one job per
  stored reaction (\<open>TriggerPromiseReactions\<close>), and settling it a second time does
  nothing; jobs run first in, first out.  Promises are numbered, values are strings.
\<close>

datatype settlement = FulfilledWith string | RejectedWith string

datatype reaction =
    Derived nat string  \<comment> \<open>\<open>p.then(() => v)\<close>: settles the derived promise\<close>
  | Capability nat      \<comment> \<open>the resolving functions that \<open>Promise.race\<close> passes to \<open>then\<close>\<close>
  | Continuation        \<comment> \<open>the suspended \<open>await\<close>\<close>

record job_state =
  promiseState :: "nat \<Rightarrow> settlement option"
  promiseReactions :: "nat \<Rightarrow> reaction list"
  jobQueue :: "(reaction \<times> settlement) list"
  awaited :: "settlement option"

definition performPromiseThen :: "nat \<Rightarrow> reaction \<Rightarrow> job_state \<Rightarrow> job_state" where
  "performPromiseThen p r h =
     (case promiseState h p of
        None \<Rightarrow> h\<lparr>promiseReactions := (promiseReactions h)(p := promiseReactions h p @ [r])\<rparr>
      | Some v \<Rightarrow> h\<lparr>jobQueue := jobQueue h @ [(r, v)]\<rparr>)"

definition settlePromise :: "nat \<Rightarrow> settlement \<Rightarrow> job_state \<Rightarrow> job_state" where
  "settlePromise p v h =
     (case promiseState h p of
        Some _ \<Rightarrow> h
      | None \<Rightarrow> h\<lparr>promiseState := (promiseState h)(p \<mapsto> v),
                   promiseReactions := (promiseReactions h)(p := []),
                   jobQueue := jobQueue h @ map (\<lambda>r. (r, v)) (promiseReactions h p)\<rparr>)"

fun run_job :: "reaction \<times> settlement \<Rightarrow> job_state \<Rightarrow> job_state" where
  "run_job (Derived q v, FulfilledWith _) h = settlePromise q (FulfilledWith v) h"
| "run_job (Derived q v, RejectedWith e) h = settlePromise q (RejectedWith e) h"
| "run_job (Capability q, s) h = settlePromise q s h"
| "run_job (Continuation, s) h = h\<lparr>awaited := Some s\<rparr>"

text \<open>Run jobs until the \<open>await\<close> resumes or the queue is empty, at most \<open>n\<close> of them.\<close>

fun run_jobs :: "nat \<Rightarrow> job_state \<Rightarrow> job_state" where
  "run_jobs 0 h = h"
| "run_jobs (Suc n) h =
     (case awaited h of
        Some _ \<Rightarrow> h
      | None \<Rightarrow>
          (case jobQueue h of
             [] \<Rightarrow> h
           | job # rest \<Rightarrow> run_jobs n (run_job job (h\<lparr>jobQueue := rest\<rparr>))))"

text \<open>
  \<open>await Promise.race([activePromises[i].then(() => 'resolved'),
  Promise.resolve('pending')])\<close>, where \<open>p\<close> is \<open>activePromises[i]\<close> and \<open>a\<close>,
  \<open>b\<close>, \<open>r\<close> are the three promises the expression creates.
\<close>

definition status_probe :: "nat \<Rightarrow> nat \<Rightarrow> nat \<Rightarrow> nat \<Rightarrow> nat \<Rightarrow> job_state \<Rightarrow> settlement option" where
  "status_probe n p a b r h =
     (let h1 = performPromiseThen p (Derived a ''resolved'') h;
          h2 = h1\<lparr>promiseState := (promiseState h1)(b \<mapsto> FulfilledWith ''pending'')\<rparr>;
          h3 = performPromiseThen a (Capability r) h2;
          h4 = performPromiseThen b (Capability r) h3;
          h5 = performPromiseThen r Continuation h4
      in awaited (run_jobs n h5))"

text \<open>
  The probe of the removal loop.  The promise it inspects is number 0 of a job queue
  in which nothing else has happened yet (the jobs of other promises cannot reach the
  three promises the probe creates); the handler of a chunk returns nothing, so a
  fulfilled promise holds \<open>undefined\<close>.  The expression queues at most four jobs.
\<close>

definition lone_promise :: "settlement option \<Rightarrow> job_state" where
  "lone_promise s =
     \<lparr>promiseState = (\<lambda>p. None)(0 := s), promiseReactions = (\<lambda>p. []),
      jobQueue = [], awaited = None\<rparr>"

definition promise_settlement :: "pstate \<Rightarrow> settlement option" where
  "promise_settlement s =
     (case s of
        Pending \<Rightarrow> None
      | Fulfilled \<Rightarrow> Some (FulfilledWith ''undefined'')
      | Rejected exn \<Rightarrow> Some (RejectedWith exn))"

definition probe :: "pstate \<Rightarrow> settlement option" where
  "probe s = status_probe 4 0 1 2 3 (lone_promise (promise_settlement s))"

subsection \<open>Worker pool: the scheduling loop of \<open>processBatch\<close>\<close>

text \<open>
  What the loop cannot decide by itself comes from the environment, one \<open>tick\<close> per
  pass of the outer \<open>while\<close>:
  \<^item> \<open>aborted\<close>: the value of \<open>abortSignal?.aborted\<close> at the top of the pass;
  \<^item> \<open>completes\<close>: the chunks whose execution finishes while the loop is suspended
    in \<open>await Promise.race(activePromises)\<close>, in the order their handlers run.
\<close>

record tick =
  aborted :: bool
  completes :: "nat list"

datatype batch_exn = Aborted | CallbackError string

datatype run_status = Completed | Failed batch_exn | Unfinished

text \<open>The inner \<open>while\<close>: fill up to the concurrency limit, in queue order.\<close>

fun admit ::
  "int \<Rightarrow> (nat \<times> 'a list) list \<Rightarrow> (nat \<times> 'a list \<times> pstate) list
     \<Rightarrow> (nat \<times> 'a list) list \<times> (nat \<times> 'a list \<times> pstate) list" where
  "admit limit [] active = ([], active)"
| "admit limit ((chunkIndex, chunk) # queue) active =
     (if int (length active) < limit
      then admit limit queue (active @ [(chunkIndex, chunk, Pending)])
      else ((chunkIndex, chunk) # queue, active))"

text \<open>Chunk \<open>c\<close> finishes: its \<open>ChunkResult\<close> exists and its handler runs.\<close>

fun settle_first ::
  "nat \<Rightarrow> pstate \<Rightarrow> (nat \<times> 'a list \<times> pstate) list \<Rightarrow> (nat \<times> 'a list \<times> pstate) list" where
  "settle_first c s' [] = []"
| "settle_first c s' ((i, chunk, s) # active) =
     (if i = c \<and> s = Pending then (i, chunk, s') # active
      else (i, chunk, s) # settle_first c s' active)"

definition settle ::
  "'a BatchOptions \<Rightarrow> ('a, 'r) processor \<Rightarrow> nat \<Rightarrow> ('a, 'r) batch_state \<Rightarrow> nat
     \<Rightarrow> ('a, 'r) batch_state" where
  "settle options processor totalChunks st c =
     (case find (\<lambda>(i, chunk, s). i = c \<and> s = Pending) (activePromises st) of
        None \<Rightarrow> st
      | Some (i, chunk, s) \<Rightarrow>
          (let result = fst (processChunkWithRetry chunk i processor
                               (or_default (o_retries options) DEFAULT_RETRIES)
                               (or_default (o_retryDelay options) DEFAULT_RETRY_DELAY));
               (st', s') = chunk_done options totalChunks result st
           in st'\<lparr>activePromises := settle_first c s' (activePromises st')\<rparr>))"

text \<open>
  \<open>await Promise.race(activePromises)\<close>: a promise that had settled before the call
  wins in array order; otherwise the first one to settle during the wait wins; if
  none settles the loop stays suspended.
\<close>

definition race ::
  "(nat \<times> 'a list \<times> pstate) list \<Rightarrow> (nat \<times> 'a list \<times> pstate) list \<Rightarrow> nat list
     \<Rightarrow> pstate option" where
  "race earlier later finished =
     (case find (\<lambda>(i, chunk, s). s \<noteq> Pending) earlier of
        Some (i, chunk, s) \<Rightarrow> Some s
      | None \<Rightarrow>
          (case filter (\<lambda>c. c \<in> set (map fst earlier)) finished of
             [] \<Rightarrow> None
           | c # _ \<Rightarrow> map_option (\<lambda>(i, chunk, s). s) (find (\<lambda>(i, chunk, s). i = c) later)))"

text \<open>
  The \<open>for\<close> loop that removes completed promises, from the last index down to 0:
  a promise is spliced out when the probe answers \<open>resolved\<close>; a probe that rejects
  rethrows; \<open>None\<close> is an \<open>await\<close> that never resumes.
\<close>

fun remove_completed ::
  "(nat \<times> 'a list \<times> pstate) list \<Rightarrow> (string + (nat \<times> 'a list \<times> pstate) list) option" where
  "remove_completed [] = Some (Inr [])"
| "remove_completed ((i, chunk, s) # active) =
     (case remove_completed active of
        None \<Rightarrow> None
      | Some (Inl exn) \<Rightarrow> Some (Inl exn)
      | Some (Inr active') \<Rightarrow>
          (case probe s of
             None \<Rightarrow> None
           | Some (RejectedWith exn) \<Rightarrow> Some (Inl exn)
           | Some (FulfilledWith status) \<Rightarrow>
               (if status = ''resolved'' then Some (Inr active')
                else Some (Inr ((i, chunk, s) # active')))))"

text \<open>
  The outer \<open>while\<close>.  The list of ticks bounds the number of passes: when it is used
  up, or when the loop is suspended with nothing completing, the run is
  \<open>Unfinished\<close> and \<open>processBatch\<close> has not returned.
\<close>

fun run_loop ::
  "'a BatchOptions \<Rightarrow> ('a, 'r) processor \<Rightarrow> nat \<Rightarrow> tick list \<Rightarrow> ('a, 'r) batch_state
     \<Rightarrow> run_status \<times> ('a, 'r) batch_state" where
  "run_loop options processor totalChunks [] st =
     (if processingQueue st = [] \<and> activePromises st = [] then (Completed, st)
      else (Unfinished, st))"
| "run_loop options processor totalChunks (t # ts) st =
     (if processingQueue st = [] \<and> activePromises st = [] then (Completed, st)
      else if aborted t then (Failed Aborted, st)
      else
        (let (queue, active) =
               admit (or_default (o_concurrency options) DEFAULT_CONCURRENCY)
                 (processingQueue st) (activePromises st);
             st1 = st\<lparr>processingQueue := queue, activePromises := active\<rparr>
         in if active = [] then run_loop options processor totalChunks ts st1
            else
              (let st2 = foldl (settle options processor totalChunks) st1 (completes t) in
               case race active (activePromises st2) (completes t) of
                 None \<Rightarrow> (Unfinished, st2)
               | Some Pending \<Rightarrow> (Unfinished, st2)
               | Some (Rejected exn) \<Rightarrow> (Failed (CallbackError exn), st2)
               | Some Fulfilled \<Rightarrow>
                   (case remove_completed (activePromises st2) of
                      None \<Rightarrow> (Unfinished, st2)
                    | Some (Inl exn) \<Rightarrow> (Failed (CallbackError exn), st2)
                    | Some (Inr active') \<Rightarrow>
                        run_loop options processor totalChunks ts
                          (st2\<lparr>activePromises := active'\<rparr>)))))"

subsection \<open>The facade: \<open>processBatch\<close>\<close>

definition initial_state :: "'a list list \<Rightarrow> ('a, 'r) batch_state" where
  "initial_state chunks =
     \<lparr>allResults = [], allErrors = [], succeeded = 0, failed = 0,
      processedChunks = 0, chunkTimes = [],
      processingQueue = enumerate 0 chunks, activePromises = [],
      progressLog = []\<rparr>"

text \<open>
  \<open>run_batch\<close> is \<open>processBatch\<close> up to its \<open>return\<close> statement; it keeps the
  final state, so that what the callbacks were given can be read off.  \<open>None\<close>: the
  chunking loop does not terminate.
\<close>

definition run_batch ::
  "'a BatchOptions \<Rightarrow> ('a, 'r) processor \<Rightarrow> tick list
     \<Rightarrow> (run_status \<times> ('a, 'r) batch_state) option" where
  "run_batch options processor ticks =
     (case split_chunks (o_items options) (or_default (o_chunkSize options) DEFAULT_CHUNK_SIZE) of
        None \<Rightarrow> None
      | Some chunks \<Rightarrow>
          Some (run_loop options processor (length chunks) ticks (initial_state chunks)))"

text \<open>
  \<open>elapsed\<close> is \<open>Date.now() - startTime\<close> as read by the \<open>return\<close> statement.
  The result is \<open>None\<close> when \<open>processBatch\<close> does not return within the given
  ticks, \<open>Some (Inl e)\<close> when it throws \<open>e\<close>.
\<close>

definition processBatch ::
  "'a BatchOptions \<Rightarrow> ('a, 'r) processor \<Rightarrow> tick list \<Rightarrow> int
     \<Rightarrow> (batch_exn + ('a, 'r) BatchResult) option" where
  "processBatch options processor ticks elapsed =
     (case run_batch options processor ticks of
        None \<Rightarrow> None
      | Some (Unfinished, st) \<Rightarrow> None
      | Some (Failed exn, st) \<Rightarrow> Some (Inl exn)
      | Some (Completed, st) \<Rightarrow>
          Some (Inr \<lparr>r_success = (failed st = 0),
                     r_total = length (o_items options),
                     r_succeeded = succeeded st,
                     r_failed = failed st,
                     r_errors = take 100 (allErrors st),
                     r_duration = elapsed,
                     r_results = allResults st\<rparr>))"

subsection \<open>Measures used in the proofs\<close>

definition queued_size :: "(nat \<times> 'a list) list \<Rightarrow> nat" where
  "queued_size queue = sum_list (map (\<lambda>(i, chunk). length chunk) queue)"

definition pending_size :: "(nat \<times> 'a list \<times> pstate) list \<Rightarrow> nat" where
  "pending_size active =
     sum_list (map (\<lambda>(i, chunk, s). if s = Pending then length chunk else 0) active)"

text \<open>
  Every item is counted once: in the counters, in a queued chunk, or in a chunk that
  was admitted and has not completed.
\<close>

definition balanced :: "('a, 'r) batch_state \<Rightarrow> int \<Rightarrow> bool" where
  "balanced st n \<longleftrightarrow>
     succeeded st + failed st
       + int (queued_size (processingQueue st)) + int (pending_size (activePromises st)) = n"

subsection \<open>Example inputs\<close>

text \<open>
  Operations: one that fails twice with a lock timeout before it succeeds, one that
  always violates a constraint, and one that always succeeds with its whole chunk.
\<close>

definition lock_timeout :: js_error where
  "lock_timeout = \<lparr>error_name = ''Error'', error_message = Some ''Lock wait timeout exceeded''\<rparr>"

definition flaky :: "(nat, nat) processor" where
  "flaky chunk chunkIndex attempt =
     (7, if attempt < 2 then Throws lock_timeout else Returns chunk)"

definition rejects_duplicates :: "(nat, nat) processor" where
  "rejects_duplicates chunk chunkIndex attempt =
     (3, Throws \<lparr>error_name = ''Error'', error_message = Some ''Unique constraint failed''\<rparr>)"

definition echo :: "(nat, nat) processor" where
  "echo chunk chunkIndex attempt = (5, Returns chunk)"



definition second_chunk_fails :: "(nat, nat) processor" where
  "second_chunk_fails chunk chunkIndex attempt =
     (if chunkIndex = 1 then rejects_duplicates chunk chunkIndex attempt
      else echo chunk chunkIndex attempt)"

text \<open>Jobs: three items in chunks of two; the variants differ in one option.\<close>

definition three_items :: "nat BatchOptions" where
  "three_items =
     \<lparr>o_items = [10, 20, 30], o_chunkSize = Some 2, o_concurrency = None,
      o_onProgress = Some (\<lambda>snapshot. None), o_onChunkComplete = None,
      o_retries = None, o_retryDelay = None\<rparr>"

definition one_at_a_time :: "nat BatchOptions" where
  "one_at_a_time = three_items\<lparr>o_chunkSize := Some 1, o_concurrency := Some 1\<rparr>"

definition failing_sink :: "nat BatchOptions" where
  "failing_sink = three_items\<lparr>o_onProgress := Some (\<lambda>snapshot. Some ''progress sink failed'')\<rparr>"

definition late_failing_sink :: "nat BatchOptions" where
  "late_failing_sink =
     three_items\<lparr>o_onProgress :=
       Some (\<lambda>snapshot. if p_currentChunk snapshot = 2 then Some ''progress sink failed''
                        else None)\<rparr>"

definition nothing_to_do :: "nat BatchOptions" where
  "nothing_to_do = three_items\<lparr>o_items := [], o_chunkSize := Some 0\<rparr>"

definition negative_size :: "nat BatchOptions" where
  "negative_size = three_items\<lparr>o_chunkSize := Some (- 1)\<rparr>"

text \<open>
  A pass of the scheduling loop, with no abort signalled, during which the chunks
  \<open>cs\<close> complete in that order.
\<close>

definition unreported :: "nat list \<Rightarrow> tick" where
  "unreported cs = \<lparr>aborted = False, completes = cs\<rparr>"

text \<open>
  The state of the job \<open>one_at_a_time\<close> after its first chunk has completed: the
  chunk is counted, its promise is fulfilled and still in the pool, the other two
  chunks are queued.
\<close>

definition stuck :: "(nat, nat) batch_state" where
  "stuck =
     \<lparr>allResults = [], allErrors = [], succeeded = 1, failed = 0, processedChunks = 1,
      chunkTimes = [5], processingQueue = [(1, [20]), (2, [30])],
      activePromises = [(0, [10], Fulfilled)],
      progressLog = [\<lparr>p_total = 3, p_processed = 1, p_succeeded = 1, p_failed = 0,
                       p_percentage = 33, p_currentChunk = 1, p_totalChunks = 3,
                       p_estimatedTimeRemaining = 10\<rparr>]\<rparr>"


section \<open>Chunker\<close>

lemma array_slice_window:
  assumes "0 \<le> i" "0 \<le> n"
  shows "array_slice xs i (i + n) = take (nat n) (drop (nat i) xs)"
  using assms by (auto simp: array_slice_def Let_def min_def max_def)

lemma less_ceiling_quotient:
  assumes "0 < s"
  shows "k < nat \<lceil>real n / real s\<rceil> \<longleftrightarrow> k * s < n"
proof -
  have "k < nat \<lceil>real n / real s\<rceil> \<longleftrightarrow> int k < \<lceil>real n / real s\<rceil>"
    by linarith
  also have "\<dots> \<longleftrightarrow> real k < real n / real s"
    by (simp add: less_ceiling_iff)
  also have "\<dots> \<longleftrightarrow> real k * real s < real n"
    using assms by (simp add: pos_less_divide_eq)
  also have "\<dots> \<longleftrightarrow> k * s < n"
    by (metis of_nat_less_iff of_nat_mult)
  finally show ?thesis .
qed

lemma chunk_loop_from:
  assumes "0 < s"
  shows "k \<le> nat \<lceil>real (length xs) / real s\<rceil> \<Longrightarrow>
         chunk_loop xs (int s) (int (k * s)) acc =
         Some (acc @ map (\<lambda>j. take s (drop (j * s) xs)) [k..<nat \<lceil>real (length xs) / real s\<rceil>])"
proof (induction "nat \<lceil>real (length xs) / real s\<rceil> - k" arbitrary: k acc)
  case 0
  then have stop: "nat \<lceil>real (length xs) / real s\<rceil> \<le> k" by linarith
  then have "\<not> k < nat \<lceil>real (length xs) / real s\<rceil>" by linarith
  then have "\<not> k * s < length xs"
    using assms less_ceiling_quotient by blast
  then have "\<not> int (k * s) < int (length xs)"
    by (simp only: of_nat_less_iff not_False_eq_True)
  with stop show ?case by (subst chunk_loop.simps) (simp del: of_nat_mult)
next
  case (Suc d)
  then have lt: "k < nat \<lceil>real (length xs) / real s\<rceil>" by simp
  then have small: "k * s < length xs"
    using assms by (simp add: less_ceiling_quotient)
  have step: "int (k * s) + int s = int (Suc k * s)" by simp
  have rec: "chunk_loop xs (int s) (int (Suc k * s)) (acc @ [take s (drop (k * s) xs)]) =
      Some ((acc @ [take s (drop (k * s) xs)]) @
        map (\<lambda>j. take s (drop (j * s) xs)) [Suc k..<nat \<lceil>real (length xs) / real s\<rceil>])"
    using Suc.hyps(2) lt by (intro Suc.hyps(1)) auto
  have win: "array_slice xs (int (k * s)) (int (k * s) + int s) = take s (drop (k * s) xs)"
    using array_slice_window[of "int (k * s)" "int s" xs] by (simp del: of_nat_mult)
  have small': "int (k * s) < int (length xs)"
    using small by (simp only: of_nat_less_iff)
  have "chunk_loop xs (int s) (int (k * s)) acc =
      chunk_loop xs (int s) (int (k * s) + int s)
        (acc @ [array_slice xs (int (k * s)) (int (k * s) + int s)])"
    by (subst chunk_loop.simps) (simp only: small' if_True)
  also have "\<dots> = chunk_loop xs (int s) (int (Suc k * s)) (acc @ [take s (drop (k * s) xs)])"
    by (simp only: win) (simp only: step)
  also note rec
  finally show ?case
    using lt by (simp add: upt_conv_Cons del: mult_Suc of_nat_mult)
qed

lemma concat_windows:
  "concat (map (\<lambda>j. take s (drop (j * s) xs)) [0..<n]) = take (n * s) xs"
proof (induction n)
  case 0
  show ?case by simp
next
  case (Suc n)
  have "take (n * s) xs @ take s (drop (n * s) xs) = take (n * s + s) xs"
    by (simp add: take_add)
  with Suc show ?case by (simp add: add.commute)
qed

lemma split_chunks_closed_form:
  assumes "1 \<le> S"
  shows "split_chunks xs S =
    Some (map (\<lambda>j. take (nat S) (drop (j * nat S) xs)) [0..<nat \<lceil>real (length xs) / real_of_int S\<rceil>])"
proof -
  have "chunk_loop xs (int (nat S)) (int (0 * nat S)) [] =
    Some ([] @ map (\<lambda>j. take (nat S) (drop (j * nat S) xs)) [0..<nat \<lceil>real (length xs) / real (nat S)\<rceil>])"
    using assms by (intro chunk_loop_from) auto
  then show ?thesis using assms by (simp add: split_chunks_def)
qed

lemma chunk_loop_diverges:
  assumes "chunk_loop xs S i acc = Some r"
  shows "\<not> (S \<le> 0 \<and> i \<le> 0 \<and> xs \<noteq> [])"
proof (rule chunk_loop.raw_induct
        [where P = "\<lambda>xs S i acc r. \<not> (S \<le> 0 \<and> i \<le> 0 \<and> xs \<noteq> [])", OF _ assms])
  fix f :: "'a list \<Rightarrow> int \<Rightarrow> int \<Rightarrow> 'a list list \<Rightarrow> 'a list list option"
    and items chunkSize i chunks r
  assume hyp: "\<And>xs S i acc r. f xs S i acc = Some r \<Longrightarrow> \<not> (S \<le> 0 \<and> i \<le> 0 \<and> xs \<noteq> [])"
    and body: "(if i < int (length items)
          then f items chunkSize (i + chunkSize) (chunks @ [array_slice items i (i + chunkSize)])
          else Some chunks) = Some r"
  show "\<not> (chunkSize \<le> 0 \<and> i \<le> 0 \<and> items \<noteq> [])"
  proof (cases "i < int (length items)")
    case True
    with body hyp[of items chunkSize "i + chunkSize"] show ?thesis by auto
  next
    case False
    then have "i \<le> 0 \<Longrightarrow> length items = 0" by linarith
    then show ?thesis by auto
  qed
qed

lemma split_chunks_nonpositive:
  "S \<le> 0 \<Longrightarrow> split_chunks xs S = (if xs = [] then Some [] else None)"
proof (cases "xs = []")
  case True
  then show ?thesis by (simp add: split_chunks_def chunk_loop.simps)
next
  case False
  assume "S \<le> 0"
  with False have "split_chunks xs S \<noteq> Some r" for r
    unfolding split_chunks_def using chunk_loop_diverges[of xs S 0 "[]" r] by auto
  with False show ?thesis by (cases "split_chunks xs S") auto
qed

lemma split_chunks_concat:
  assumes "split_chunks xs S = Some chunks"
  shows "concat chunks = xs"
proof (cases "1 \<le> S")
  case True
  have "length xs \<le> nat \<lceil>real (length xs) / real_of_int S\<rceil> * nat S"
    using True less_ceiling_quotient[of "nat S" "nat \<lceil>real (length xs) / real_of_int S\<rceil>" "length xs"]
    by (simp add: not_less[symmetric])
  moreover from assms True
  have "chunks = map (\<lambda>j. take (nat S) (drop (j * nat S) xs))
                   [0..<nat \<lceil>real (length xs) / real_of_int S\<rceil>]"
    by (simp add: split_chunks_closed_form)
  ultimately show ?thesis
    by (simp add: concat_windows)
next
  case False
  with assms show ?thesis
    by (simp add: split_chunks_nonpositive split: if_splits)
qed

text \<open>
  C2.  For every item list of length \<open>N\<close> and every chunk size \<open>S \<ge> 1\<close> the
  chunking loop terminates with exactly \<open>ceil(N/S)\<close> chunks; chunk \<open>j\<close> is the
  contiguous slice of \<open>S\<close> items starting at position \<open>j * S\<close>, every chunk but the
  last has exactly \<open>S\<close> items, no chunk is empty or longer than \<open>S\<close>, and the
  chunks concatenated in index order are the original sequence.
\<close>

theorem chunker_partition:
  assumes "1 \<le> S"
  shows "\<exists>chunks. split_chunks xs S = Some chunks
           \<and> int (length chunks) = \<lceil>real (length xs) / real_of_int S\<rceil>
           \<and> (\<forall>j<length chunks. chunks ! j = take (nat S) (drop (j * nat S) xs))
           \<and> (\<forall>j. Suc j < length chunks \<longrightarrow> length (chunks ! j) = nat S)
           \<and> (\<forall>j<length chunks. 0 < length (chunks ! j) \<and> length (chunks ! j) \<le> nat S)
           \<and> concat chunks = xs"
proof -
  define n where "n = nat \<lceil>real (length xs) / real_of_int S\<rceil>"
  define chunks where "chunks = map (\<lambda>j. take (nat S) (drop (j * nat S) xs)) [0..<n]"
  have pos: "0 < nat S" using assms by simp
  have cut: "k < n \<longleftrightarrow> k * nat S < length xs" for k
    using less_ceiling_quotient[OF pos, of k "length xs"] assms by (simp add: n_def)
  have ran: "split_chunks xs S = Some chunks"
    using assms by (simp add: split_chunks_closed_form chunks_def n_def)
  have len: "int (length chunks) = \<lceil>real (length xs) / real_of_int S\<rceil>"
  proof -
    have "0 \<le> real (length xs) / real_of_int S" using assms by simp
    then have "0 \<le> \<lceil>real (length xs) / real_of_int S\<rceil>" by linarith
    then show ?thesis by (simp add: chunks_def n_def)
  qed
  have nth: "\<forall>j<length chunks. chunks ! j = take (nat S) (drop (j * nat S) xs)"
    by (simp add: chunks_def)
  have full: "\<forall>j. Suc j < length chunks \<longrightarrow> length (chunks ! j) = nat S"
  proof (intro allI impI)
    fix j assume "Suc j < length chunks"
    then have "Suc j < n" and j: "j < length chunks" by (simp_all add: chunks_def)
    then have "Suc j * nat S < length xs" using cut by blast
    then have "j * nat S + nat S \<le> length xs" by simp
    with j nth show "length (chunks ! j) = nat S" by simp
  qed
  have size: "\<forall>j<length chunks. 0 < length (chunks ! j) \<and> length (chunks ! j) \<le> nat S"
  proof (intro allI impI)
    fix j assume j: "j < length chunks"
    then have "j < n" by (simp add: chunks_def)
    then have "j * nat S < length xs" using cut by blast
    with j nth pos show "0 < length (chunks ! j) \<and> length (chunks ! j) \<le> nat S" by simp
  qed
  have "concat chunks = xs"
    using ran by (rule split_chunks_concat)
  with ran len nth full size show ?thesis by blast
qed

theorem chunker_partition_witness:
  "(1::int) \<le> 2
   \<and> (\<exists>chunks. split_chunks [1, 2, 3, 4, 5 :: nat] 2 = Some chunks
          \<and> length chunks = 3
          \<and> chunks ! 2 = [5]
          \<and> concat chunks = [1, 2, 3, 4, 5])"
proof -
  have h: "(1::int) \<le> 2" by simp
  obtain chunks where ran: "split_chunks [1, 2, 3, 4, 5 :: nat] 2 = Some chunks"
    and len: "int (length chunks) = \<lceil>real (length [1, 2, 3, 4, 5 :: nat]) / real_of_int 2\<rceil>"
    and nth: "\<forall>j<length chunks. chunks ! j = take (nat 2) (drop (j * nat 2) [1, 2, 3, 4, 5 :: nat])"
    and cat: "concat chunks = [1, 2, 3, 4, 5 :: nat]"
    using chunker_partition[OF h, of "[1, 2, 3, 4, 5 :: nat]"] by blast
  have "\<lceil>real (length [1, 2, 3, 4, 5 :: nat]) / real_of_int 2\<rceil> = 3"
    by (simp add: ceiling_eq_iff)
  with len have three: "length chunks = 3" by simp
  with nth have "chunks ! 2 = [5]" by simp
  with h ran three cat show ?thesis by blast
qed

section \<open>Retry policy\<close>








section \<open>Chunk executor\<close>

lemma attempt_loop_succeeds_after:
  assumes budget: "int k \<le> retries"
    and fails: "\<forall>a<k. \<exists>took e. processor chunk chunkIndex a = (took, Throws e) \<and> isRetryableError e"
    and succeeds: "processor chunk chunkIndex k = (took, Returns rs)"
  shows "a \<le> k \<Longrightarrow>
    \<exists>finish. attempt_loop chunk chunkIndex processor retries retryDelay a clock waits =
      (\<lparr>c_chunkIndex = chunkIndex, c_items = chunk, c_succeeded = int (length rs),
        c_failed = int (length chunk) - int (length rs), c_errors = [],
        c_duration = finish\<rparr>,
       waits @ map (\<lambda>j. retryDelay * (int j + 1)) [a..<k])"
proof (induction "k - a" arbitrary: a clock waits)
  case 0
  then have "a = k" by simp
  with budget succeeds show ?case
    by (subst attempt_loop.simps) simp
next
  case (Suc d)
  then have lt: "a < k" by simp
  with fails obtain t e where call: "processor chunk chunkIndex a = (t, Throws e)"
    and transient: "isRetryableError e" by blast
  from lt budget have more: "int a \<le> retries" "int a \<noteq> retries" by simp_all
  from Suc.hyps(2) lt
  obtain finish where rec:
    "attempt_loop chunk chunkIndex processor retries retryDelay (Suc a)
       (clock + t + max 0 (retryDelay * (int a + 1))) (waits @ [retryDelay * (int a + 1)]) =
     (\<lparr>c_chunkIndex = chunkIndex, c_items = chunk, c_succeeded = int (length rs),
       c_failed = int (length chunk) - int (length rs), c_errors = [],
       c_duration = finish\<rparr>,
      (waits @ [retryDelay * (int a + 1)]) @ map (\<lambda>j. retryDelay * (int j + 1)) [Suc a..<k])"
    using Suc.hyps(1)[of "Suc a"] by fastforce
  from lt have "[a..<k] = a # [Suc a..<k]" by (simp add: upt_conv_Cons)
  with rec call transient more show ?case
    by (subst attempt_loop.simps) simp
qed

text \<open>
  C3.  If the operation fails with a retryable error on each of the first \<open>k\<close>
  attempts, \<open>k \<le> retries\<close>, and succeeds on the next attempt returning as many
  values as the chunk has items, then the \<open>ChunkResult\<close> has \<open>succeeded\<close> equal to
  the chunk size, \<open>failed = 0\<close> and no errors, and there were exactly \<open>k\<close> backoff
  waits, of \<open>retryDelay * 1\<close>, \<open>retryDelay * 2\<close>, ..., \<open>retryDelay * k\<close>: the wait
  after failed attempt number \<open>a\<close>, counted from 0, is \<open>retryDelay * (a + 1)\<close>.
\<close>

theorem retry_backoff_linear:
  assumes "int k \<le> retries"
    and "\<forall>a<k. \<exists>took e. processor chunk chunkIndex a = (took, Throws e) \<and> isRetryableError e"
    and "processor chunk chunkIndex k = (took, Returns rs)"
    and "length rs = length chunk"
  shows "c_succeeded (fst (processChunkWithRetry chunk chunkIndex processor retries retryDelay))
           = int (length chunk)
       \<and> c_failed (fst (processChunkWithRetry chunk chunkIndex processor retries retryDelay)) = 0
       \<and> c_errors (fst (processChunkWithRetry chunk chunkIndex processor retries retryDelay)) = []
       \<and> snd (processChunkWithRetry chunk chunkIndex processor retries retryDelay)
           = map (\<lambda>a. retryDelay * (int a + 1)) [0..<k]"
proof -
  obtain finish where
    "attempt_loop chunk chunkIndex processor retries retryDelay 0 0 [] =
      (\<lparr>c_chunkIndex = chunkIndex, c_items = chunk, c_succeeded = int (length rs),
        c_failed = int (length chunk) - int (length rs), c_errors = [],
        c_duration = finish\<rparr>,
       [] @ map (\<lambda>j. retryDelay * (int j + 1)) [0..<k])"
    using attempt_loop_succeeds_after
      [where processor = processor and chunk = chunk and chunkIndex = chunkIndex and k = k
         and a = 0 and retryDelay = retryDelay and clock = 0 and waits = "[]", OF assms(1-3)]
    by blast
  with assms(4) show ?thesis
    by (simp add: processChunkWithRetry_def)
qed

theorem retry_backoff_linear_witness:
  "int 2 \<le> 2
   \<and> fst (flaky [10, 20] 0 0) = 7 \<and> isRetryableError (lock_timeout)
   \<and> snd (flaky [10, 20] 0 0) = Throws lock_timeout
   \<and> snd (flaky [10, 20] 0 1) = Throws lock_timeout
   \<and> flaky [10, 20] 0 2 = (7, Returns [10, 20])
   \<and> c_succeeded (fst (processChunkWithRetry [10, 20] 0 flaky 2 1000)) = 2
   \<and> c_failed (fst (processChunkWithRetry [10, 20] 0 flaky 2 1000)) = 0
   \<and> c_errors (fst (processChunkWithRetry [10, 20] 0 flaky 2 1000)) = []
   \<and> snd (processChunkWithRetry [10, 20] 0 flaky 2 1000) = [1000, 2000]"
proof -
  have budget: "int 2 \<le> 2" by simp
  have transient: "isRetryableError lock_timeout"
    by code_simp
  have fails: "\<forall>a<2. \<exists>took e. flaky [10, 20] 0 a = (took, Throws e) \<and> isRetryableError e"
    using transient by (simp add: flaky_def)
  have succeeds: "flaky [10, 20] 0 2 = (7, Returns [10, 20])"
    by (simp add: flaky_def)
  have "[0..<2] = [0, Suc 0]" by (simp add: upt_conv_Cons)
  with retry_backoff_linear
      [where processor = flaky and chunk = "[10, 20]" and chunkIndex = 0 and k = 2
         and retryDelay = 1000, OF budget fails succeeds]
    budget transient succeeds
  show ?thesis by (simp add: flaky_def)
qed

text \<open>
  A chunk whose operation fails terminally, or retryably on the last attempt allowed:
  no successes, every item failed, and one error per item with the message and the
  classification of the last attempt.
\<close>

lemma attempt_loop_fails_at:
  assumes budget: "int k \<le> retries"
    and fails: "\<forall>a<k. \<exists>took e. processor chunk chunkIndex a = (took, Throws e) \<and> isRetryableError e"
    and final: "processor chunk chunkIndex k = (took, Throws e)"
    and stop: "\<not> isRetryableError e \<or> int k = retries"
  shows "a \<le> k \<Longrightarrow>
    \<exists>finish. fst (attempt_loop chunk chunkIndex processor retries retryDelay a clock waits) =
      \<lparr>c_chunkIndex = chunkIndex, c_items = chunk, c_succeeded = 0,
       c_failed = int (length chunk),
       c_errors = map (\<lambda>i. \<lparr>e_index = chunkIndex * length chunk + i, e_item = chunk ! i,
                               e_error = error_message e,
                               e_retryable = isRetryableError e\<rparr>) [0..<length chunk],
       c_duration = finish\<rparr>"
proof (induction "k - a" arbitrary: a clock waits)
  case 0
  then have "a = k" by simp
  with budget final stop show ?case
    by (subst attempt_loop.simps) (auto simp: Let_def)
next
  case (Suc d)
  then have lt: "a < k" by simp
  with fails obtain t e' where call: "processor chunk chunkIndex a = (t, Throws e')"
    and transient: "isRetryableError e'" by blast
  from lt budget have more: "int a \<le> retries" "int a \<noteq> retries" by simp_all
  from Suc.hyps(2) lt have "d = k - Suc a" "Suc a \<le> k" by simp_all
  from Suc.hyps(1)[OF this] call transient more show ?case
    by (subst attempt_loop.simps) simp
qed

lemma failed_chunk_result:
  assumes "int k \<le> retries"
    and "\<forall>a<k. \<exists>took e. processor chunk chunkIndex a = (took, Throws e) \<and> isRetryableError e"
    and "processor chunk chunkIndex k = (took, Throws e)"
    and "\<not> isRetryableError e \<or> int k = retries"
  shows "c_succeeded (fst (processChunkWithRetry chunk chunkIndex processor retries retryDelay)) = 0
     \<and> c_failed (fst (processChunkWithRetry chunk chunkIndex processor retries retryDelay))
         = int (length chunk)
     \<and> c_errors (fst (processChunkWithRetry chunk chunkIndex processor retries retryDelay))
         = map (\<lambda>i. \<lparr>e_index = chunkIndex * length chunk + i, e_item = chunk ! i,
                        e_error = error_message e, e_retryable = isRetryableError e\<rparr>)
             [0..<length chunk]"
proof -
  obtain finish where
    "fst (attempt_loop chunk chunkIndex processor retries retryDelay 0 0 []) =
      \<lparr>c_chunkIndex = chunkIndex, c_items = chunk, c_succeeded = 0,
       c_failed = int (length chunk),
       c_errors = map (\<lambda>i. \<lparr>e_index = chunkIndex * length chunk + i, e_item = chunk ! i,
                               e_error = error_message e,
                               e_retryable = isRetryableError e\<rparr>) [0..<length chunk],
       c_duration = finish\<rparr>"
    using attempt_loop_fails_at
      [where processor = processor and chunk = chunk and chunkIndex = chunkIndex and k = k
         and a = 0 and retryDelay = retryDelay and clock = 0 and waits = "[]", OF assms]
    by blast
  then show ?thesis
    by (simp add: processChunkWithRetry_def)
qed

text \<open>
  C4.  A chunk whose operation fails for good gets one \<open>BatchError\<close> per item, but
  the index the error carries is \<open>chunkIndex * chunk.length + i\<close>, which is not the
  item's position in the input when the chunk is shorter than the chunk size.  Three
  items in chunks of two: the third item, at position 2, is the only item of chunk 1,
  and its error carries index 1, the position of the second item.
\<close>

theorem error_index_of_short_last_chunk:
  "split_chunks [10, 20, 30 :: nat] 2 = Some [[10, 20], [30]]
   \<and> c_errors (fst (processChunkWithRetry [30] 1 rejects_duplicates 2 1000)) =
       [\<lparr>e_index = 1, e_item = 30, e_error = Some ''Unique constraint failed'',
         e_retryable = False\<rparr>]
   \<and> [10, 20, 30 :: nat] ! 1 = 20
   \<and> [10, 20, 30 :: nat] ! 2 = 30"
  by code_simp


section \<open>The scheduling loop\<close>

text \<open>The probe, run on the job queue: it answers \<open>pending\<close> for every promise.\<close>

lemma run_jobs_resumed: "awaited h = Some v \<Longrightarrow> run_jobs n h = h"
  by (cases n) simp_all

lemma probe_always_pending:
  "status_probe (4 + fuel) 0 1 2 3 (lone_promise s) = Some (FulfilledWith ''pending'')"
proof -
  have fuel: "4 + fuel = Suc (Suc (Suc (Suc fuel)))" by simp
  show ?thesis
  proof (cases s)
    case None
    then show ?thesis
      unfolding fuel
      by (simp add: status_probe_def lone_promise_def performPromiseThen_def settlePromise_def Let_def)
  next
    case (Some v)
    then show ?thesis
      unfolding fuel
      by (cases v)
         (simp_all add: status_probe_def lone_promise_def performPromiseThen_def
            settlePromise_def Let_def run_jobs_resumed)
  qed
qed

lemma probe_pending: "probe s = Some (FulfilledWith ''pending'')"
  using probe_always_pending[of 0 "promise_settlement s"] by (simp add: probe_def)

text \<open>So the removal loop removes nothing.\<close>

lemma remove_completed_keeps: "remove_completed active = Some (Inr active)"
  by (induction active rule: remove_completed.induct) (simp_all add: probe_pending)

lemma run_loop_pass:
  assumes "processingQueue st \<noteq> [] \<or> activePromises st \<noteq> []" and "\<not> aborted t"
    and "admit (or_default (o_concurrency options) DEFAULT_CONCURRENCY)
           (processingQueue st) (activePromises st) = (queue, active)"
  shows "run_loop options processor totalChunks (t # ticks) st =
    (let st1 = st\<lparr>processingQueue := queue, activePromises := active\<rparr> in
     if active = [] then run_loop options processor totalChunks ticks st1
     else
       (let st2 = foldl (settle options processor totalChunks) st1 (completes t) in
        case race active (activePromises st2) (completes t) of
          None \<Rightarrow> (Unfinished, st2)
        | Some Pending \<Rightarrow> (Unfinished, st2)
        | Some (Rejected exn) \<Rightarrow> (Failed (CallbackError exn), st2)
        | Some Fulfilled \<Rightarrow> run_loop options processor totalChunks ticks st2))"
  using assms
  by (auto simp: remove_completed_keeps Let_def split: option.splits pstate.splits)

lemma run_loop_idle:
  "processingQueue st = [] \<Longrightarrow> activePromises st = [] \<Longrightarrow>
   run_loop options processor totalChunks ticks st = (Completed, st)"
  by (cases ticks) simp_all

text \<open>What the completion of a chunk changes.\<close>

lemma chunk_done_effect:
  assumes "chunk_done options totalChunks result st = (st', s')"
  shows "succeeded st' + failed st' = succeeded st + failed st + c_succeeded result + c_failed result"
    and "processingQueue st' = processingQueue st"
    and "activePromises st' = activePromises st"
    and "allResults st' = allResults st"
    and "s' \<noteq> Pending"
  using assms
  by (auto simp: chunk_done_def notify_complete_def Let_def split: option.splits)

lemma settle_cases:
  obtains (idle) "find (\<lambda>(i, chunk, s). i = c \<and> s = Pending) (activePromises st) = None"
      "settle options processor totalChunks st c = st"
  | (run) i ch s st' s' where
      "find (\<lambda>(i, chunk, s). i = c \<and> s = Pending) (activePromises st) = Some (i, ch, s)"
      "chunk_done options totalChunks
         (fst (processChunkWithRetry ch i processor
                 (or_default (o_retries options) DEFAULT_RETRIES)
                 (or_default (o_retryDelay options) DEFAULT_RETRY_DELAY))) st = (st', s')"
      "settle options processor totalChunks st c
         = st'\<lparr>activePromises := settle_first c s' (activePromises st)\<rparr>"
proof (cases "find (\<lambda>(i, chunk, s). i = c \<and> s = Pending) (activePromises st)")
  case None
  then have "settle options processor totalChunks st c = st" by (simp add: settle_def)
  with None show ?thesis by (rule idle)
next
  case (Some found)
  obtain i ch s where found: "found = (i, ch, s)" by (cases found)
  obtain st' s' where handled:
    "chunk_done options totalChunks
       (fst (processChunkWithRetry ch i processor
               (or_default (o_retries options) DEFAULT_RETRIES)
               (or_default (o_retryDelay options) DEFAULT_RETRY_DELAY))) st = (st', s')"
    by (cases "chunk_done options totalChunks
       (fst (processChunkWithRetry ch i processor
               (or_default (o_retries options) DEFAULT_RETRIES)
               (or_default (o_retryDelay options) DEFAULT_RETRY_DELAY))) st")
  have "settle options processor totalChunks st c
         = st'\<lparr>activePromises := settle_first c s' (activePromises st)\<rparr>"
    using Some found handled chunk_done_effect(3)[OF handled] by (simp add: settle_def)
  with Some found handled show ?thesis by (auto intro: run)
qed

lemma settle_first_length: "length (settle_first c s' active) = length active"
  by (induction active) auto

lemma settle_keeps:
  "processingQueue (settle options processor totalChunks st c) = processingQueue st"
  "length (activePromises (settle options processor totalChunks st c))
     = length (activePromises st)"
  "allResults (settle options processor totalChunks st c) = allResults st"
  by (cases rule: settle_cases[of c st options processor totalChunks];
      simp add: chunk_done_effect settle_first_length)+

lemma foldl_settle_keeps:
  "processingQueue (foldl (settle options processor totalChunks) st cs) = processingQueue st"
  "length (activePromises (foldl (settle options processor totalChunks) st cs))
     = length (activePromises st)"
  "allResults (foldl (settle options processor totalChunks) st cs) = allResults st"
  by (induction cs arbitrary: st; simp add: settle_keeps)+

text \<open>
  Once a chunk has been admitted the loop has no normal exit: nothing leaves
  \<open>activePromises\<close>.  With work queued and a concurrency limit that admits nothing,
  the queue stays as it is.
\<close>

lemma admit_appends:
  "admit limit queue active = (queue', active') \<Longrightarrow>
   \<exists>extra. active' = active @ extra \<and> (\<forall>(i, chunk, s) \<in> set extra. s = Pending)
           \<and> (queue \<noteq> [] \<longrightarrow> queue' \<noteq> [] \<or> extra \<noteq> [])"
proof (induction limit queue active arbitrary: queue' active' rule: admit.induct)
  case (1 limit active)
  then show ?case by simp
next
  case (2 limit chunkIndex chunk queue active)
  show ?case
  proof (cases "int (length active) < limit")
    case True
    with 2 obtain extra where
      "active' = (active @ [(chunkIndex, chunk, Pending)]) @ extra"
      "\<forall>(i, chunk, s) \<in> set extra. s = Pending"
      by fastforce
    then show ?thesis
      by (intro exI[of _ "(chunkIndex, chunk, Pending) # extra"]) simp
  next
    case False
    with 2 show ?thesis by simp
  qed
qed

lemma run_loop_never_completes:
  "processingQueue st \<noteq> [] \<or> activePromises st \<noteq> [] \<Longrightarrow>
   fst (run_loop options processor totalChunks ticks st) \<noteq> Completed"
proof (induction ticks arbitrary: st)
  case Nil
  then show ?case by auto
next
  case (Cons t ticks)
  note busy = Cons.prems
  obtain queue active where adm:
    "admit (or_default (o_concurrency options) DEFAULT_CONCURRENCY)
       (processingQueue st) (activePromises st) = (queue, active)"
    by (cases "admit (or_default (o_concurrency options) DEFAULT_CONCURRENCY)
       (processingQueue st) (activePromises st)")
  let ?st1 = "st\<lparr>processingQueue := queue, activePromises := active\<rparr>"
  let ?st2 = "foldl (settle options processor totalChunks) ?st1 (completes t)"
  from admit_appends[OF adm] busy
  have busy1: "processingQueue ?st1 \<noteq> [] \<or> activePromises ?st1 \<noteq> []"
    by auto
  have busy2: "active \<noteq> [] \<Longrightarrow> processingQueue ?st2 \<noteq> [] \<or> activePromises ?st2 \<noteq> []"
    using foldl_settle_keeps(2)[of options processor totalChunks ?st1 "completes t"]
    by auto
  show ?case
  proof (cases "aborted t")
    case True
    with busy show ?thesis by auto
  next
    case False
    note pass = run_loop_pass[OF busy False adm, of processor totalChunks ticks]
    show ?thesis
    proof (cases "active = []")
      case True
      with pass Cons.IH[OF busy1] show ?thesis by simp
    next
      case nonempty: False
      with pass Cons.IH[OF busy2[OF nonempty]] show ?thesis
        by (auto simp: Let_def split: option.splits pstate.splits)
    qed
  qed
qed

lemma no_result_for_job_with_items:
  assumes "o_items options \<noteq> []"
  shows "processBatch options processor ticks elapsed \<noteq> Some (Inr r)"
proof
  assume "processBatch options processor ticks elapsed = Some (Inr r)"
  then obtain chunks st where
    chunks: "split_chunks (o_items options) (or_default (o_chunkSize options) DEFAULT_CHUNK_SIZE)
               = Some chunks"
    and run: "run_loop options processor (length chunks) ticks (initial_state chunks) = (Completed, st)"
    by (auto simp: processBatch_def run_batch_def split: option.splits run_status.splits)
  have "concat chunks = o_items options"
    using chunks by (rule split_chunks_concat)
  with assms have "chunks \<noteq> []" by auto
  then have "processingQueue (initial_state chunks :: ('a, 'b) batch_state) \<noteq> []
      \<or> activePromises (initial_state chunks :: ('a, 'b) batch_state) \<noteq> []"
    by (cases chunks) (simp_all add: initial_state_def)
  from run_loop_never_completes[OF this, of options processor "length chunks" ticks] run
  show False by simp
qed

text \<open>The pool is bounded by the concurrency limit.\<close>

lemma admit_bounded:
  "admit limit queue active = (queue', active') \<Longrightarrow>
   int (length active') \<le> max limit (int (length active))"
  by (induction limit queue active arbitrary: queue' active' rule: admit.induct)
     (auto split: if_splits)

lemma run_loop_pool_bounded:
  "int (length (activePromises st)) \<le> max 0 (or_default (o_concurrency options) DEFAULT_CONCURRENCY)
   \<Longrightarrow> int (length (activePromises (snd (run_loop options processor totalChunks ticks st))))
       \<le> max 0 (or_default (o_concurrency options) DEFAULT_CONCURRENCY)"
proof (induction ticks arbitrary: st)
  case Nil
  then show ?case by simp
next
  case (Cons t ticks)
  obtain queue active where adm:
    "admit (or_default (o_concurrency options) DEFAULT_CONCURRENCY)
       (processingQueue st) (activePromises st) = (queue, active)"
    by (cases "admit (or_default (o_concurrency options) DEFAULT_CONCURRENCY)
       (processingQueue st) (activePromises st)")
  from admit_bounded[OF adm] Cons.prems
  have pool: "int (length active) \<le> max 0 (or_default (o_concurrency options) DEFAULT_CONCURRENCY)"
    by simp
  let ?st1 = "st\<lparr>processingQueue := queue, activePromises := active\<rparr>"
  let ?st2 = "foldl (settle options processor totalChunks) ?st1 (completes t)"
  have pool2: "length (activePromises ?st2) = length active"
    by (simp add: foldl_settle_keeps)
  have first: "int (length (activePromises ?st1))
      \<le> max 0 (or_default (o_concurrency options) DEFAULT_CONCURRENCY)"
    using pool by simp
  have second: "int (length (activePromises ?st2))
      \<le> max 0 (or_default (o_concurrency options) DEFAULT_CONCURRENCY)"
    using pool pool2 by simp
  show ?case
    using Cons.prems pool pool2 Cons.IH[OF first] Cons.IH[OF second] adm
    by (auto simp: Let_def remove_completed_keeps split: option.splits pstate.splits)
qed

section \<open>Totals of a batch\<close>

lemma attempt_loop_accounts:
  "c_succeeded (fst (attempt_loop chunk chunkIndex processor retries retryDelay attempt clock waits))
   + c_failed (fst (attempt_loop chunk chunkIndex processor retries retryDelay attempt clock waits))
   = int (length chunk)"
proof (induction chunk chunkIndex processor retries retryDelay attempt clock waits
       rule: attempt_loop.induct)
  case (1 chunk chunkIndex processor retries retryDelay attempt clock waits)
  show ?case
    by (subst (1 2) attempt_loop.simps)
       (use 1 in \<open>auto simp: Let_def split: prod.splits outcome.splits\<close>)
qed

lemma processChunkWithRetry_accounts:
  "c_succeeded (fst (processChunkWithRetry chunk chunkIndex processor retries retryDelay))
   + c_failed (fst (processChunkWithRetry chunk chunkIndex processor retries retryDelay))
   = int (length chunk)"
  by (simp add: processChunkWithRetry_def attempt_loop_accounts)

lemma admit_size:
  "admit limit queue active = (queue', active') \<Longrightarrow>
   queued_size queue' + pending_size active' = queued_size queue + pending_size active"
  by (induction limit queue active arbitrary: queue' active' rule: admit.induct)
     (auto simp: queued_size_def pending_size_def split: if_splits)

lemma settle_first_size:
  "find (\<lambda>(i, chunk, s). i = c \<and> s = Pending) active = Some (i, ch, s) \<Longrightarrow> s' \<noteq> Pending \<Longrightarrow>
   pending_size (settle_first c s' active) + length ch = pending_size active"
  by (induction active) (auto simp: pending_size_def split: if_splits)

lemma settle_balanced:
  assumes "balanced st n"
  shows "balanced (settle options processor totalChunks st c) n"
proof (cases rule: settle_cases[of c st options processor totalChunks])
  case idle
  with assms show ?thesis by simp
next
  case (run i ch s st' s')
  note eff = chunk_done_effect[OF run(2)]
  have size: "pending_size (settle_first c s' (activePromises st)) + length ch
      = pending_size (activePromises st)"
    using run(1) eff(5) by (rule settle_first_size)
  have "c_succeeded (fst (processChunkWithRetry ch i processor
          (or_default (o_retries options) DEFAULT_RETRIES)
          (or_default (o_retryDelay options) DEFAULT_RETRY_DELAY)))
      + c_failed (fst (processChunkWithRetry ch i processor
          (or_default (o_retries options) DEFAULT_RETRIES)
          (or_default (o_retryDelay options) DEFAULT_RETRY_DELAY))) = int (length ch)"
    by (rule processChunkWithRetry_accounts)
  with assms eff size show ?thesis
    unfolding run(3) balanced_def by simp
qed

lemma foldl_settle_balanced:
  "balanced st n \<Longrightarrow> balanced (foldl (settle options processor totalChunks) st cs) n"
  by (induction cs arbitrary: st) (simp_all add: settle_balanced)

text \<open>
  The counters are kept right on every run: at the end of each pass every item is
  counted exactly once, as succeeded, as failed, in a queued chunk or in a chunk that
  is still executing.
\<close>

lemma run_loop_balanced:
  "balanced st n \<Longrightarrow> balanced (snd (run_loop options processor totalChunks ticks st)) n"
proof (induction ticks arbitrary: st)
  case Nil
  then show ?case by simp
next
  case (Cons t ticks)
  obtain queue active where adm:
    "admit (or_default (o_concurrency options) DEFAULT_CONCURRENCY)
       (processingQueue st) (activePromises st) = (queue, active)"
    by (cases "admit (or_default (o_concurrency options) DEFAULT_CONCURRENCY)
       (processingQueue st) (activePromises st)")
  let ?st1 = "st\<lparr>processingQueue := queue, activePromises := active\<rparr>"
  let ?st2 = "foldl (settle options processor totalChunks) ?st1 (completes t)"
  have b1: "balanced ?st1 n"
    using Cons.prems admit_size[OF adm] by (simp add: balanced_def)
  have b2: "balanced ?st2 n"
    using b1 by (rule foldl_settle_balanced)
  show ?case
    using Cons.prems b1 b2 Cons.IH[OF b1] Cons.IH[OF b2] adm
    by (auto simp: Let_def remove_completed_keeps split: option.splits pstate.splits)
qed

lemma queued_size_enumerate:
  "int (queued_size (enumerate k chunks)) = int (length (concat chunks))"
  by (induction chunks arbitrary: k) (simp_all add: queued_size_def)

lemma counters_conserved:
  assumes "run_batch options processor ticks = Some (status, st)"
  shows "succeeded st + failed st
           + int (queued_size (processingQueue st)) + int (pending_size (activePromises st))
         = int (length (o_items options))"
proof -
  from assms obtain chunks where
    chunks: "split_chunks (o_items options) (or_default (o_chunkSize options) DEFAULT_CHUNK_SIZE)
               = Some chunks"
    and run: "run_loop options processor (length chunks) ticks (initial_state chunks) = (status, st)"
    by (auto simp: run_batch_def split: option.splits)
  have cat: "concat chunks = o_items options"
    using chunks by (rule split_chunks_concat)
  have "balanced (initial_state chunks :: ('a, 'b) batch_state) (int (length (concat chunks)))"
    by (simp add: balanced_def initial_state_def queued_size_enumerate pending_size_def)
  from run_loop_balanced[OF this, of options processor "length chunks" ticks] run cat
  show ?thesis by (simp add: balanced_def)
qed

text \<open>
  C1.  The counters are right, but no \<open>BatchResult\<close> carries them.  Three items in
  chunks of two, an operation that returns the first chunk whole and fails terminally
  on the second: once both chunks have completed the run has counted 2 chunks,
  2 successes and 1 failure, which add up to the 3 items, and the loop has not
  finished; and whatever the course of the run, \<open>processBatch\<close> returns no
  \<open>BatchResult\<close> for this job, because a completed promise never leaves
  \<open>activePromises\<close>.
\<close>

theorem totals_counted_but_never_returned:
  "map_option (\<lambda>(status, st). (status, processedChunks st, succeeded st, failed st))
     (run_batch three_items second_chunk_fails [unreported [0, 1]])
     = Some (Unfinished, 2, 2, 1)
   \<and> processBatch three_items second_chunk_fails ticks elapsed \<noteq> Some (Inr r)"
proof -
  have "o_items three_items \<noteq> []"
    by (simp add: three_items_def)
  then have "processBatch three_items second_chunk_fails ticks elapsed \<noteq> Some (Inr r)"
    by (rule no_result_for_job_with_items)
  moreover have "map_option (\<lambda>(status, st). (status, processedChunks st, succeeded st, failed st))
     (run_batch three_items second_chunk_fails [unreported [0, 1]])
     = Some (Unfinished, 2, 2, 1)"
    by code_simp
  ultimately show ?thesis by blast
qed

section \<open>Results and progress\<close>

lemma run_loop_allResults:
  "allResults (snd (run_loop options processor totalChunks ticks st)) = allResults st"
proof (induction ticks arbitrary: st)
  case Nil
  show ?case by simp
next
  case (Cons t ticks)
  show ?case
    by (auto simp: Let_def Cons.IH foldl_settle_keeps remove_completed_keeps
          split: prod.splits option.splits pstate.splits)
qed

lemma allResults_stays_empty:
  assumes "run_batch options processor ticks = Some (status, st)"
  shows "allResults st = []"
proof -
  from assms obtain chunks where
    "run_loop options processor (length chunks) ticks (initial_state chunks) = (status, st)"
    by (auto simp: run_batch_def split: option.splits)
  with run_loop_allResults[of options processor "length chunks" ticks "initial_state chunks"]
  show ?thesis by (simp add: initial_state_def)
qed

text \<open>
  C5.  The values returned by the operation are never collected, and the job is never
  run to completion.  Three items in chunks of two, an operation that returns each
  chunk whole: the chunks return \<open>[10, 20]\<close> and \<open>[30]\<close>; once both have completed
  they are counted (2 chunks, 3 successes), \<open>allResults\<close> (the list that would become
  the \<open>results\<close> field) is still empty where the concatenation in chunk order is
  \<open>[10, 20, 30]\<close>, and the loop has not finished; whatever the course of the run,
  \<open>processBatch\<close> returns no \<open>BatchResult\<close> for this job.
\<close>

theorem results_never_collected:
  "echo [10, 20] 0 0 = (5, Returns [10, 20])
   \<and> echo [30] 1 0 = (5, Returns [30])
   \<and> map_option (\<lambda>(status, st). (status, processedChunks st, succeeded st, allResults st))
        (run_batch three_items echo [unreported [0, 1]]) = Some (Unfinished, 2, 3, [])
   \<and> processBatch three_items echo ticks elapsed \<noteq> Some (Inr r)"
proof -
  have "o_items three_items \<noteq> []"
    by (simp add: three_items_def)
  then have "processBatch three_items echo ticks elapsed \<noteq> Some (Inr r)"
    by (rule no_result_for_job_with_items)
  moreover have "echo [10, 20] 0 0 = (5, Returns [10, 20])
   \<and> echo [30] 1 0 = (5, Returns [30])
   \<and> map_option (\<lambda>(status, st). (status, processedChunks st, succeeded st, allResults st))
        (run_batch three_items echo [unreported [0, 1]]) = Some (Unfinished, 2, 3, [])"
    by code_simp
  ultimately show ?thesis by blast
qed

text \<open>
  The percentage is rounded from the double that the division and the multiplication
  produce, not from the exact quotient: at 23 chunks of 40 the exact value is 57.5,
  the double lies just below it, and \<open>Math.round\<close> gives 57.
\<close>

lemma percentage_rounds_the_double:
  "Math_round (to_double (to_double (23 / 40) * 100)) = 57 \<and> Math_round (23 / 40 * 100) = 58"
  by code_simp

text \<open>
  C6.  The snapshot handed to \<open>onProgress\<close> reports
  \<open>processed = processedChunks * chunkSize\<close>, which counts a short last chunk as a
  full one.  Three items in chunks of two, both chunks completing in the first pass:
  the snapshots carry (total, processed, succeeded + failed) = (3, 2, 2) and then
  (3, 4, 3), so the second one reports more items processed than were processed, and
  more than the job has.
\<close>

theorem processed_overcounts_short_chunk:
  "map_option (\<lambda>(status, st).
       map (\<lambda>snapshot. (p_total snapshot, p_processed snapshot,
                         p_succeeded snapshot + p_failed snapshot)) (progressLog st))
     (run_batch three_items echo [unreported [0, 1]])
   = Some [(3, 2, 2), (3, 4, 3)]"
  by code_simp

section \<open>Chunk size validation\<close>

text \<open>
  C7, as the code has it.  \<open>processBatch\<close> does not validate the chunk size and throws
  no error for a non-positive one; the chunking loop runs with it.  With no items the
  loop body never runs and \<open>processBatch\<close> returns the empty, successful
  \<open>BatchResult\<close>; with at least one item the chunking loop never terminates, so
  neither a result nor an error reaches the caller.
\<close>

theorem nonpositive_chunk_size_unchecked:
  assumes "or_default (o_chunkSize options) DEFAULT_CHUNK_SIZE \<le> 0"
  shows "(o_items options = [] \<longrightarrow>
            processBatch options processor ticks elapsed =
              Some (Inr \<lparr>r_success = True, r_total = 0, r_succeeded = 0, r_failed = 0,
                         r_errors = [], r_duration = elapsed, r_results = []\<rparr>))
       \<and> (o_items options \<noteq> [] \<longrightarrow> processBatch options processor ticks elapsed = None)"
  using assms
  by (simp add: processBatch_def run_batch_def split_chunks_nonpositive run_loop_idle
        initial_state_def)

text \<open>
  Nothing is rejected: a call with chunk size 0 and no items returns a result.
\<close>

theorem nonpositive_chunk_size_counterexample:
  "or_default (o_chunkSize nothing_to_do) DEFAULT_CHUNK_SIZE = 0
   \<and> processBatch nothing_to_do echo [] 7 =
       Some (Inr \<lparr>r_success = True, r_total = 0, r_succeeded = 0, r_failed = 0,
                  r_errors = [], r_duration = 7, r_results = []\<rparr>)"
  by code_simp

theorem nonpositive_chunk_size_unchecked_witness:
  "or_default (o_chunkSize negative_size) DEFAULT_CHUNK_SIZE \<le> 0
   \<and> o_items negative_size \<noteq> []
   \<and> processBatch negative_size echo [unreported [0], unreported [1]] 7 = None"
proof -
  have size: "or_default (o_chunkSize negative_size) DEFAULT_CHUNK_SIZE \<le> 0"
    by (simp add: negative_size_def three_items_def or_default_def)
  have work: "o_items negative_size \<noteq> []"
    by (simp add: negative_size_def three_items_def)
  from nonpositive_chunk_size_unchecked[OF size, of echo "[unreported [0], unreported [1]]" 7] work
  have "processBatch negative_size echo [unreported [0], unreported [1]] 7 = None"
    by blast
  with size work show ?thesis by blast
qed

section \<open>A progress callback that throws\<close>

lemma chunk_done_throws:
  assumes "o_onProgress options = Some callback" and "\<forall>snapshot. callback snapshot \<noteq> None"
    and "chunk_done options totalChunks result st = (st', s')"
  shows "\<exists>snapshot exn. p_currentChunk snapshot = processedChunks st + 1
           \<and> callback snapshot = Some exn \<and> s' = Rejected exn"
proof -
  define snapshot where "snapshot =
    \<lparr>p_total = length (o_items options),
     p_processed = int (processedChunks st + 1) * or_default (o_chunkSize options) DEFAULT_CHUNK_SIZE,
     p_succeeded = succeeded st + c_succeeded result,
     p_failed = failed st + c_failed result,
     p_percentage = Math_round
       (to_double (to_double (of_nat (processedChunks st + 1) / of_nat totalChunks) * 100)),
     p_currentChunk = processedChunks st + 1,
     p_totalChunks = totalChunks,
     p_estimatedTimeRemaining =
       to_double (of_int (int totalChunks - int (processedChunks st + 1))
         * to_double (of_int (sum_list (chunkTimes st @ [c_duration result]))
             / of_nat (length (chunkTimes st @ [c_duration result]))))\<rparr>"
  from assms(2) have "callback snapshot \<noteq> None" by blast
  then obtain exn where exn: "callback snapshot = Some exn"
    by (cases "callback snapshot") simp_all
  have "s' = Rejected exn"
    using assms(1,3) exn
    by (simp add: chunk_done_def Let_def snapshot_def)
  moreover have "p_currentChunk snapshot = processedChunks st + 1"
    by (simp add: snapshot_def)
  ultimately show ?thesis using exn by blast
qed

lemma find_settle_first_other:
  "c \<noteq> d \<Longrightarrow>
   find (\<lambda>(i, chunk, s). i = c) (settle_first d s' active) = find (\<lambda>(i, chunk, s). i = c) active"
  by (induction active) auto

lemma find_settle_first_settled:
  "find (\<lambda>(i, chunk, s). i = c) active = Some (c, ch, s) \<Longrightarrow> s \<noteq> Pending \<Longrightarrow>
   find (\<lambda>(i, chunk, s). i = c) (settle_first c s' active) = Some (c, ch, s)"
  by (induction active) (auto split: if_splits)

lemma find_settle_first_pending:
  "find (\<lambda>(i, chunk, s). i = c) active = Some (c, ch, Pending) \<Longrightarrow>
   find (\<lambda>(i, chunk, s). i = c) (settle_first c s' active) = Some (c, ch, s')"
  by (induction active) (auto split: if_splits)

lemma settle_keeps_settled:
  assumes "find (\<lambda>(i, chunk, s). i = c) (activePromises st) = Some (c, ch, s)" and "s \<noteq> Pending"
  shows "find (\<lambda>(i, chunk, s). i = c) (activePromises (settle options processor totalChunks st d))
         = Some (c, ch, s)"
proof (cases rule: settle_cases[of d st options processor totalChunks])
  case idle
  with assms show ?thesis by simp
next
  case (run i ch' s0 st' s')
  show ?thesis
  proof (cases "c = d")
    case True
    with assms run(3) show ?thesis by (simp add: find_settle_first_settled)
  next
    case False
    with assms run(3) show ?thesis by (simp add: find_settle_first_other)
  qed
qed

lemma foldl_settle_keeps_settled:
  "find (\<lambda>(i, chunk, s). i = c) (activePromises st) = Some (c, ch, s) \<Longrightarrow> s \<noteq> Pending \<Longrightarrow>
   find (\<lambda>(i, chunk, s). i = c)
     (activePromises (foldl (settle options processor totalChunks) st ds)) = Some (c, ch, s)"
  by (induction ds arbitrary: st) (simp_all add: settle_keeps_settled)

lemma admit_take:
  "admit limit queue active =
     (drop (nat (limit - int (length active))) queue,
      active @ map (\<lambda>(i, chunk). (i, chunk, Pending))
                 (take (nat (limit - int (length active))) queue))"
proof (induction limit queue active rule: admit.induct)
  case (1 limit active)
  show ?case by simp
next
  case (2 limit chunkIndex chunk queue active)
  show ?case
  proof (cases "int (length active) < limit")
    case True
    then obtain m where m: "nat (limit - int (length active)) = Suc m"
      by (cases "nat (limit - int (length active))") auto
    then have "nat (limit - int (length (active @ [(chunkIndex, chunk, Pending)]))) = m"
      by simp
    with 2 True m show ?thesis by simp
  next
    case False
    then show ?thesis by simp
  qed
qed

lemma first_completion_rejects:
  assumes sink: "o_onProgress options = Some callback" "\<forall>snapshot. callback snapshot \<noteq> None"
    and chunks: "split_chunks (o_items options) (or_default (o_chunkSize options) DEFAULT_CHUNK_SIZE)
                   = Some chunks"
    and admitted: "c < length chunks" "int c < or_default (o_concurrency options) DEFAULT_CONCURRENCY"
    and running: "\<not> aborted t"
    and first: "completes t = c # cs"
  shows "\<exists>snapshot exn. p_currentChunk snapshot = 1 \<and> callback snapshot = Some exn
           \<and> processBatch options processor (t # ts) elapsed = Some (Inl (CallbackError exn))"
proof -
  define limit where "limit = or_default (o_concurrency options) DEFAULT_CONCURRENCY"
  define st0 :: "('a, 'b) batch_state" where "st0 = initial_state chunks"
  define queue where "queue = drop (nat limit) (enumerate 0 chunks)"
  define active where "active =
    map (\<lambda>(i, chunk). (i, chunk, Pending)) (take (nat limit) (enumerate 0 chunks))"
  have adm: "admit (or_default (o_concurrency options) DEFAULT_CONCURRENCY)
      (processingQueue st0) (activePromises st0) = (queue, active)"
    by (simp add: admit_take st0_def initial_state_def queue_def active_def limit_def)
  have pending: "\<forall>(i, chunk, s) \<in> set active. s = Pending"
    by (auto simp: active_def)
  have "map fst active = take (nat limit) [0..<length chunks]"
    by (simp add: active_def take_map[symmetric] comp_def case_prod_unfold
          map_fst_enumerate[simplified])
  moreover have "c \<in> set (take (nat limit) [0..<length chunks])"
  proof -
    have "c < length (take (nat limit) [0..<length chunks])"
      using admitted by (simp add: limit_def)
    moreover from this have "take (nat limit) [0..<length chunks] ! c = c"
      by simp
    ultimately show ?thesis by (metis nth_mem)
  qed
  ultimately have member: "c \<in> set (map fst active)" by simp
  then obtain ch where found: "find (\<lambda>(i, chunk, s). i = c) active = Some (c, ch, Pending)"
  proof -
    from member have "\<exists>x \<in> set active. (\<lambda>(i, chunk, s). i = c) x" by auto
    then obtain x where x: "find (\<lambda>(i, chunk, s). i = c) active = Some x"
      by (cases "find (\<lambda>(i, chunk, s). i = c) active") (auto simp: find_None_iff)
    then have "x \<in> set active" "(\<lambda>(i, chunk, s). i = c) x"
      by (metis find_Some_iff nth_mem)+
    with pending x that show ?thesis by (cases x) auto
  qed
  let ?st1 = "st0\<lparr>processingQueue := queue, activePromises := active\<rparr>"
  let ?st2 = "foldl (settle options processor (length chunks)) ?st1 (completes t)"
  from found have "(c, ch, Pending) \<in> set active"
    by (metis find_Some_iff nth_mem)
  then have found': "find (\<lambda>(i, chunk, s). i = c \<and> s = Pending) (activePromises ?st1) \<noteq> None"
    by (auto simp: find_None_iff)
  obtain snapshot exn where snap: "p_currentChunk snapshot = 1" "callback snapshot = Some exn"
    and settled: "find (\<lambda>(i, chunk, s). i = c)
        (activePromises (settle options processor (length chunks) ?st1 c)) = Some (c, ch, Rejected exn)"
  proof (cases rule: settle_cases[of c ?st1 options processor "length chunks"])
    case idle
    with found' show ?thesis by simp
  next
    case (run i ch' s st' s')
    from chunk_done_throws[OF sink run(2)]
    obtain snapshot exn where "p_currentChunk snapshot = 1" "callback snapshot = Some exn"
      "s' = Rejected exn"
      by (auto simp: st0_def initial_state_def)
    with run(3) found that show ?thesis
      by (simp add: find_settle_first_pending)
  qed
  have later: "find (\<lambda>(i, chunk, s). i = c) (activePromises ?st2) = Some (c, ch, Rejected exn)"
    using foldl_settle_keeps_settled[OF settled, of options processor "length chunks" cs]
    by (simp add: first)
  have "find (\<lambda>(i, chunk, s). s \<noteq> Pending) active = None"
    using pending by (auto simp: find_None_iff)
  then have won: "race active (activePromises ?st2) (completes t) = Some (Rejected exn)"
    using member later by (simp add: race_def first)
  have busy: "processingQueue st0 \<noteq> [] \<or> activePromises st0 \<noteq> []"
    using admitted(1) by (cases chunks) (simp_all add: st0_def initial_state_def)
  have nonempty: "active \<noteq> []" using member by auto
  have "run_loop options processor (length chunks) (t # ts) st0
      = (Failed (CallbackError exn), ?st2)"
    by (subst run_loop_pass[OF busy running adm])
       (simp only: Let_def nonempty if_False won option.case pstate.case)
  then have "processBatch options processor (t # ts) elapsed = Some (Inl (CallbackError exn))"
    using chunks by (simp add: processBatch_def run_batch_def st0_def)
  with snap show ?thesis by blast
qed

text \<open>
  C8, as the code has it.  An exception thrown by \<open>onProgress\<close> is not isolated.  For
  a job with at least one item whose \<open>onProgress\<close> throws whenever it is invoked,
  \<open>processBatch\<close> never returns a \<open>BatchResult\<close>, whatever the course of the run;
  and when the first chunk to complete is one that the first pass of the loop has
  admitted (its index is below the number of chunks and below the concurrency limit)
  and that pass is not aborted, \<open>processBatch\<close> rejects with the exception that the
  callback threw for its first snapshot, the one with \<open>currentChunk = 1\<close>.
\<close>

theorem throwing_onProgress_rejects_batch:
  assumes "o_onProgress options = Some callback"
    and "\<forall>snapshot. callback snapshot \<noteq> None"
    and "o_items options \<noteq> []"
  shows "(\<forall>ticks r. processBatch options processor ticks elapsed \<noteq> Some (Inr r))
     \<and> (split_chunks (o_items options) (or_default (o_chunkSize options) DEFAULT_CHUNK_SIZE)
           = Some chunks
         \<and> c < length chunks
         \<and> int c < or_default (o_concurrency options) DEFAULT_CONCURRENCY
         \<and> \<not> aborted t \<and> completes t = c # cs
        \<longrightarrow> (\<exists>snapshot exn. p_currentChunk snapshot = 1 \<and> callback snapshot = Some exn
               \<and> processBatch options processor (t # ts) elapsed
                   = Some (Inl (CallbackError exn))))"
  using no_result_for_job_with_items[OF assms(3)] first_completion_rejects[OF assms(1,2)]
  by blast

text \<open>
  The batch is aborted: with a throwing callback \<open>processBatch\<close> rejects when the
  first chunk has completed, although the operation itself succeeded.
\<close>

theorem throwing_onProgress_counterexample:
  "processBatch failing_sink echo [unreported [0]] 12
     = Some (Inl (CallbackError ''progress sink failed''))"
  by code_simp

theorem throwing_onProgress_rejects_batch_witness:
  "o_onProgress failing_sink = Some (\<lambda>snapshot. Some ''progress sink failed'')
   \<and> o_items failing_sink \<noteq> []
   \<and> split_chunks (o_items failing_sink) (or_default (o_chunkSize failing_sink) DEFAULT_CHUNK_SIZE)
       = Some [[10, 20], [30]]
   \<and> int 1 < or_default (o_concurrency failing_sink) DEFAULT_CONCURRENCY
   \<and> processBatch failing_sink echo [unreported [1, 0], unreported []] 12
       = Some (Inl (CallbackError ''progress sink failed''))"
proof -
  have sink: "o_onProgress failing_sink = Some (\<lambda>snapshot. Some ''progress sink failed'')"
    by (simp add: failing_sink_def three_items_def)
  have throws: "\<forall>snapshot :: BatchProgress.
      (\<lambda>snapshot. Some ''progress sink failed'') snapshot \<noteq> None"
    by simp
  have work: "o_items failing_sink \<noteq> []"
    by (simp add: failing_sink_def three_items_def)
  have chunks: "split_chunks (o_items failing_sink)
      (or_default (o_chunkSize failing_sink) DEFAULT_CHUNK_SIZE) = Some [[10, 20], [30]]"
    by code_simp
  have limit: "int 1 < or_default (o_concurrency failing_sink) DEFAULT_CONCURRENCY"
    by (simp add: failing_sink_def three_items_def or_default_def DEFAULT_CONCURRENCY_def)
  have pass: "\<not> aborted (unreported [1, 0])" "completes (unreported [1, 0]) = 1 # [0]"
    by (simp_all add: unreported_def)
  from throwing_onProgress_rejects_batch
    [OF sink throws work, of echo 12 "[[10, 20], [30]]" 1 "unreported [1, 0]" "[0]" "[unreported []]"]
    chunks limit pass
  have "processBatch failing_sink echo [unreported [1, 0], unreported []] 12
       = Some (Inl (CallbackError ''progress sink failed''))"
    by auto
  with sink work chunks limit show ?thesis by blast
qed

text \<open>
  An exception thrown only for the second chunk to complete is not rethrown when the
  rejected promise stands behind a fulfilled one: the fulfilled promise wins every
  race, and the loop goes on.
\<close>

lemma late_exception_stays_in_pool:
  "map_option (\<lambda>(status, st). (status, map (\<lambda>(i, chunk, s). s) (activePromises st)))
     (run_batch late_failing_sink echo [unreported [0, 1], unreported [], unreported []])
   = Some (Unfinished, [Fulfilled, Rejected ''progress sink failed''])"
  by code_simp

section \<open>Admission after a chunk has completed\<close>

lemma chunking: "split_chunks [10, 20, 30 :: nat] 1 = Some [[10], [20], [30]]"
  by code_simp

lemma first_settled:
  "settle one_at_a_time echo 3
     ((initial_state [[10], [20], [30]])
        \<lparr>processingQueue := [(1, [20]), (2, [30])], activePromises := [(0, [10], Pending)]\<rparr>) 0
   = stuck"
  by code_simp

lemma first_pass:
  "run_loop one_at_a_time echo 3 (unreported [0] # ticks) (initial_state [[10], [20], [30]])
   = run_loop one_at_a_time echo 3 ticks stuck"
proof -
  have limit: "or_default (o_concurrency one_at_a_time) DEFAULT_CONCURRENCY = 1"
    by (simp add: one_at_a_time_def or_default_def)
  have adm: "admit (or_default (o_concurrency one_at_a_time) DEFAULT_CONCURRENCY)
       (processingQueue (initial_state [[10], [20], [30 :: nat]] :: (nat, nat) batch_state))
       (activePromises (initial_state [[10], [20], [30 :: nat]] :: (nat, nat) batch_state))
     = ([(1, [20]), (2, [30])], [(0, [10], Pending)])"
    unfolding limit by (simp add: initial_state_def)
  have busy: "processingQueue (initial_state [[10], [20], [30 :: nat]] :: (nat, nat) batch_state) \<noteq> []
     \<or> activePromises (initial_state [[10], [20], [30 :: nat]] :: (nat, nat) batch_state) \<noteq> []"
    by (simp add: initial_state_def)
  have running: "\<not> aborted (unreported [0])" by (simp add: unreported_def)
  show ?thesis
    by (subst run_loop_pass[OF busy running adm])
       (simp add: Let_def unreported_def first_settled race_def stuck_def del: One_nat_def)
qed

lemma stuck_forever:
  "run_loop one_at_a_time echo 3 (replicate n (unreported [])) stuck = (Unfinished, stuck)"
proof (induction n)
  case 0
  show ?case by (simp add: stuck_def)
next
  case (Suc n)
  have limit: "or_default (o_concurrency one_at_a_time) DEFAULT_CONCURRENCY = 1"
    by (simp add: one_at_a_time_def or_default_def)
  have adm: "admit (or_default (o_concurrency one_at_a_time) DEFAULT_CONCURRENCY)
       (processingQueue stuck) (activePromises stuck)
     = (processingQueue stuck, activePromises stuck)"
    unfolding limit by (simp add: stuck_def)
  have busy: "processingQueue stuck \<noteq> [] \<or> activePromises stuck \<noteq> []"
    by (simp add: stuck_def)
  have running: "\<not> aborted (unreported [])" by (simp add: unreported_def)
  have won: "race (activePromises stuck) (activePromises stuck) [] = Some Fulfilled"
    by (simp add: race_def stuck_def)
  have "run_loop one_at_a_time echo 3 (unreported [] # replicate n (unreported [])) stuck
      = run_loop one_at_a_time echo 3 (replicate n (unreported [])) stuck"
    by (subst run_loop_pass[OF busy running adm])
       (simp add: Let_def unreported_def won busy)
  with Suc show ?case by simp
qed

text \<open>
  C10.  The pool never holds more chunks than the concurrency limit, but a chunk that
  has completed never leaves it.  The status probe resumes with \<open>pending\<close> whatever
  the state of the promise it inspects (by the time the reaction on the derived
  promise can run, the reaction on \<open>Promise.resolve('pending')\<close> is already ahead of
  it in the job queue), so no promise is ever removed from \<open>activePromises\<close>.  Three
  items in chunks of one, concurrency 1: after chunk 0 has completed, however many
  further passes the loop makes, chunks 1 and 2 stay queued and \<open>processBatch\<close> has
  not returned.
\<close>

theorem completed_chunk_never_leaves_pool:
  "status_probe (4 + fuel) 0 1 2 3 (lone_promise s) = Some (FulfilledWith ''pending'')
   \<and> run_batch one_at_a_time echo (unreported [0] # replicate n (unreported []))
       = Some (Unfinished, stuck)
   \<and> processingQueue stuck = [(1, [20]), (2, [30])]
   \<and> activePromises stuck = [(0, [10], Fulfilled)]"
proof -
  have job: "o_items one_at_a_time = [10, 20, 30]"
    "or_default (o_chunkSize one_at_a_time) DEFAULT_CHUNK_SIZE = 1"
    by (simp_all add: one_at_a_time_def three_items_def or_default_def)
  have three: "length [[10], [20], [30 :: nat]] = 3" by simp
  have "run_batch one_at_a_time echo (unreported [0] # replicate n (unreported []))
       = Some (Unfinished, stuck)"
    by (simp only: run_batch_def job chunking option.case three first_pass stuck_forever)
  with probe_always_pending[of fuel s] show ?thesis
    by (simp add: stuck_def)
qed

end
